theory Spec2Isabelle
  imports Main
begin

section \<open>Extension management (bot/exts/utils/extensions.py)\<close>

text \<open>
  Python strings of the extension manager are modelled as \<^typ>\<open>string\<close>: nothing in this
  module looks inside a character. The host runtime (the framework's \<open>Bot\<close>) is not part of
  the repository; it is a parameter of every function below. A function that can let an
  exception through returns either that exception (\<open>Inl\<close>) or its value (\<open>Inr\<close>), next
  to the host state it leaves behind.
\<close>

subsection \<open>Strings\<close>

fun join :: "'a list \<Rightarrow> 'a list list \<Rightarrow> 'a list" where
  "join sep [] = []"
| "join sep [x] = x"
| "join sep (x # y # ys) = x @ sep @ join sep (y # ys)"

definition digit_char :: "nat \<Rightarrow> char" where
  "digit_char d = ''0123456789'' ! d"

function str_nat :: "nat \<Rightarrow> string" where
  "str_nat n = (if n < 10 then [digit_char n] else str_nat (n div 10) @ [digit_char (n mod 10)])"
  by pat_completeness auto
termination
  by (relation "measure id") auto

definition str_int :: "int \<Rightarrow> string" where
  "str_int i = (if i < 0 then CHR ''-'' # str_nat (nat (- i)) else str_nat (nat i))"

subsection \<open>Actions, exceptions and the host\<close>

datatype Action = LOAD | UNLOAD | RELOAD

fun verb :: "Action \<Rightarrow> string" where
  "verb LOAD = ''load''"
| "verb UNLOAD = ''unload''"
| "verb RELOAD = ''reload''"

text \<open>
  An exception object, as far as \<open>manage\<close> inspects it: which \<open>except\<close> clause it meets,
  the name of its class, its \<open>str()\<close>, and its attribute \<open>original\<close> when it has one. It
  is an instance of \<open>ExtensionAlreadyLoaded\<close> or of \<open>ExtensionNotLoaded\<close> (the first
  clause), another instance of \<open>Exception\<close> (the second clause), or an instance of
  \<open>BaseException\<close> that is no \<open>Exception\<close>, such as \<open>SystemExit\<close> and
  \<open>KeyboardInterrupt\<close> (no clause).
\<close>

datatype exc_class =
  ExtensionAlreadyLoaded | ExtensionNotLoaded | OtherException | NotAnException

datatype exc = Exc (isa: exc_class) (class_name: string) (detail: string) (original: "exc option")

text \<open>
  \<open>action.value(self.bot, ext)\<close>: the host operation bound to the action, run on the host
  state. It returns the exception it raised, if any, and the host state it leaves behind.
\<close>

type_synonym 'h host_op = "Action \<Rightarrow> 'h \<Rightarrow> string \<Rightarrow> exc option \<times> 'h"

text \<open>The host operation instrumented with the list of the calls made to it.\<close>

definition traced :: "'h host_op \<Rightarrow> ('h \<times> (Action \<times> string) list) host_op" where
  "traced H a st ext =
     (case H a (fst st) ext of (r, s') \<Rightarrow> (r, (s', snd st @ [(a, ext)])))"

subsection \<open>manage\<close>

definition unwrap :: "exc \<Rightarrow> exc" where
  "unwrap e = (case original e of Some inner \<Rightarrow> inner | None \<Rightarrow> e)"

definition format_error :: "exc \<Rightarrow> string" where
  "format_error e = class_name e @ '': '' @ detail e"

text \<open>
  The \<open>try\<close> statement has four ways out: the operation returns, the first \<open>except\<close> clause,
  the second one, and an exception that neither clause catches, which leaves \<open>manage\<close>.
\<close>

function manage ::
  "'h host_op \<Rightarrow> Action \<Rightarrow> 'h \<Rightarrow> string \<Rightarrow> (exc + string \<times> string option) \<times> 'h" where
  "manage H action s ext =
     (case H action s ext of
        (None, s') \<Rightarrow>
          (Inr (''Extension successfully '' @ verb action @ ''ed: `'' @ ext @ ''`.'', None), s')
      | (Some e, s') \<Rightarrow>
          if isa e = ExtensionAlreadyLoaded \<or> isa e = ExtensionNotLoaded then
            (if action = RELOAD then manage H LOAD s' ext
             else (Inr (''Extension `'' @ ext @ ''` is already '' @ verb action @ ''ed.'', None), s'))
          else if isa e = OtherException then
            (let error_msg = format_error (unwrap e)
             in (Inr (''Failed to '' @ verb action @ '' extension `'' @ ext @ ''`:\<newline>```\<newline>''
                        @ error_msg @ ''```'', Some error_msg), s'))
          else (Inl e, s'))"
  by pat_completeness auto
termination
  by (relation "measure (\<lambda>(H, action, s, ext). if action = RELOAD then 1 else 0)") auto

declare manage.simps [simp del]

subsection \<open>batch\_manage\<close>

text \<open>Python's truth value of an optional string: \<open>None\<close> and \<open>""\<close> are false.\<close>

fun truthy :: "string option \<Rightarrow> bool" where
  "truthy None = False"
| "truthy (Some m) = (m \<noteq> [])"

text \<open>\<open>d[k] = v\<close> on an insertion-ordered dict: a known key keeps its place.\<close>

fun dict_set :: "('k \<times> 'v) list \<Rightarrow> 'k \<Rightarrow> 'v \<Rightarrow> ('k \<times> 'v) list" where
  "dict_set [] k v = [(k, v)]"
| "dict_set ((k', v') # kvs) k v =
     (if k' = k then (k', v) # kvs else (k', v') # dict_set kvs k v)"

text \<open>The loop over the units; an exception that leaves \<open>manage\<close> leaves the loop.\<close>

fun batch_loop ::
  "'h host_op \<Rightarrow> Action \<Rightarrow> string list \<Rightarrow> (string \<times> string) list \<Rightarrow> 'h
     \<Rightarrow> (exc + (string \<times> string) list) \<times> 'h" where
  "batch_loop H action [] failures s = (Inr failures, s)"
| "batch_loop H action (extension # rest) failures s =
     (case manage H action s extension of
        (Inl e, s') \<Rightarrow> (Inl e, s')
      | (Inr (_, error), s') \<Rightarrow>
          batch_loop H action rest
            (case error of
               Some err \<Rightarrow> if truthy error then dict_set failures extension err else failures
             | None \<Rightarrow> failures) s')"

definition failure_line :: "string \<times> string \<Rightarrow> string" where
  "failure_line p = fst p @ ''\<newline>    '' @ snd p"

definition batch_manage ::
  "'h host_op \<Rightarrow> Action \<Rightarrow> 'h \<Rightarrow> string list \<Rightarrow> (exc + string \<times> bool) \<times> 'h" where
  "batch_manage H action s extensions =
     (if length extensions = 1 then
        (case manage H action s (hd extensions) of
           (Inl e, s') \<Rightarrow> (Inl e, s')
         | (Inr (msg, error_msg), s') \<Rightarrow> (Inr (msg, truthy error_msg), s'))
      else
        (case batch_loop H action extensions [] s of
           (Inl e, s') \<Rightarrow> (Inl e, s')
         | (Inr failures, s') \<Rightarrow>
             (let msg = str_int (int (length extensions) - int (length failures)) @ '' / ''
                          @ str_int (int (length extensions)) @ '' extensions ''
                          @ verb action @ ''ed.'';
                  status = (failures \<noteq> [])
              in (Inr (if failures \<noteq> [] then
                         msg @ ''\<newline>\<newline>**Failures:**```\<newline>''
                             @ join ''\<newline>'' (map failure_line failures) @ ''```''
                       else msg, status), s'))))"

text \<open>
  Readings of a batch that the theorems compare \<open>batch_manage\<close> with: the host calls that
  one unit causes, those of the whole batch, and the outcome of every unit in input order
  (each unit starts from the host state the previous one left). They stop with the unit
  whose exception leaves \<open>manage\<close>.
\<close>

definition falls_back :: "'h host_op \<Rightarrow> Action \<Rightarrow> 'h \<Rightarrow> string \<Rightarrow> bool" where
  "falls_back H action s ext \<longleftrightarrow>
     action = RELOAD \<and>
     (case fst (H RELOAD s ext) of
        Some e \<Rightarrow> isa e = ExtensionAlreadyLoaded \<or> isa e = ExtensionNotLoaded
      | None \<Rightarrow> False)"

definition host_calls :: "'h host_op \<Rightarrow> Action \<Rightarrow> 'h \<Rightarrow> string \<Rightarrow> (Action \<times> string) list" where
  "host_calls H action s ext =
     (if falls_back H action s ext then [(RELOAD, ext), (LOAD, ext)] else [(action, ext)])"


fun outcomes :: "'h host_op \<Rightarrow> Action \<Rightarrow> 'h \<Rightarrow> string list \<Rightarrow> (string \<times> string option) list" where
  "outcomes H action s [] = []"
| "outcomes H action s (ext # rest) =
     (case manage H action s ext of
        (Inl e, s') \<Rightarrow> []
      | (Inr r, s') \<Rightarrow> (ext, snd r) # outcomes H action s' rest)"

text \<open>The outcomes whose error message is true, as (unit, error message).\<close>

fun failed_of :: "(string \<times> string option) list \<Rightarrow> (string \<times> string) list" where
  "failed_of [] = []"
| "failed_of ((ext, None) # rest) = failed_of rest"
| "failed_of ((ext, Some err) # rest) =
     (if err = [] then failed_of rest else (ext, err) # failed_of rest)"

text \<open>The dict that results from storing the entries one after the other.\<close>

definition dict_of :: "('k \<times> 'v) list \<Rightarrow> ('k \<times> 'v) list" where
  "dict_of entries = foldl (\<lambda>d p. dict_set d (fst p) (snd p)) [] entries"

text \<open>A host whose operations raise instances of \<open>Exception\<close> only.\<close>

definition only_exceptions :: "'h host_op \<Rightarrow> bool" where
  "only_exceptions H \<longleftrightarrow>
     (\<forall>action s ext e s'. H action s ext = (Some e, s') \<longrightarrow> isa e \<noteq> NotAnException)"

subsection \<open>unload\_command\<close>

text \<open>
  \<open>exts.__name__\<close> is the name of the package \<open>bot.exts\<close> that the module imports. The
  arguments of the command arrive converted (\<open>Extension\<close>), as a tuple of names and
  wildcards. What the command sends is kept as data: the help page, or an embed with its
  kind and text.
\<close>

definition exts_name :: string where
  "exts_name = ''bot.exts''"

definition UNLOAD_BLACKLIST :: "string list" where
  "UNLOAD_BLACKLIST = [exts_name @ ''.utils.extensions'']"

text \<open>\<open>s.split(sep)\<close> for a separator of one character.\<close>

fun split_on :: "'a \<Rightarrow> 'a list \<Rightarrow> 'a list list" where
  "split_on sep [] = [[]]"
| "split_on sep (c # cs) =
     (if c = sep then [] # split_on sep cs
      else (case split_on sep cs of
              w # ws \<Rightarrow> (c # w) # ws
            | [] \<Rightarrow> [[c]]))"

definition BASE_PATH_LEN :: nat where
  "BASE_PATH_LEN = length (split_on CHR ''.'' exts_name)"

datatype reply = SendHelp | SendEmbed string string

text \<open>
  The set \<open>set(self.bot.extensions.keys()) - UNLOAD_BLACKLIST\<close> is unpacked in the order of
  the host's table; Python leaves the order of a set open.
\<close>

definition unload_command ::
  "('h \<Rightarrow> string list) \<Rightarrow> 'h host_op \<Rightarrow> 'h \<Rightarrow> string list \<Rightarrow> (exc + reply) \<times> 'h" where
  "unload_command keys H s extensions =
     (if extensions = [] then (Inr SendHelp, s)
      else
        (let blacklisted = join ''\<newline>'' (filter (\<lambda>b. b \<in> set extensions) UNLOAD_BLACKLIST)
         in if blacklisted \<noteq> [] then
              (Inr (SendEmbed ''error''
                      (''The following extension(s) may not be unloaded:```\<newline>''
                         @ blacklisted @ ''```'')), s)
            else
              (let extensions' =
                     (if ''*'' \<in> set extensions \<or> ''**'' \<in> set extensions
                      then filter (\<lambda>x. x \<notin> set UNLOAD_BLACKLIST) (keys s)
                      else extensions)
               in case batch_manage H UNLOAD s extensions' of
                    (Inl e, s') \<Rightarrow> (Inl e, s')
                  | (Inr (msg, did_error), s') \<Rightarrow>
                      (Inr (SendEmbed (if did_error then ''error'' else ''confirmation'') msg),
                       s'))))"

subsection \<open>group\_extension\_statuses\<close>

text \<open>
  \<open>EXTENSIONS\<close> (the known units) and the two status markers of \<open>Emojis\<close> are constants of
  modules outside this file: they are parameters. \<open>keys s\<close> are the keys of
  \<open>self.bot.extensions\<close>.
\<close>

definition category_of :: "string \<Rightarrow> string" where
  "category_of ext =
     (let path = split_on CHR ''.'' ext
      in if length path > BASE_PATH_LEN + 1
         then join '' - '' (drop BASE_PATH_LEN (butlast path))
         else ''uncategorised'')"

definition status_of :: "string \<Rightarrow> string \<Rightarrow> string list \<Rightarrow> string \<Rightarrow> string" where
  "status_of status_online status_offline loaded ext =
     (if ext \<in> set loaded then status_online else status_offline)"

definition entry_of :: "string \<Rightarrow> string \<Rightarrow> string list \<Rightarrow> string \<Rightarrow> string" where
  "entry_of status_online status_offline loaded ext =
     status_of status_online status_offline loaded ext @ ''  '' @ last (split_on CHR ''.'' ext)"

text \<open>\<open>d.setdefault(k, []).append(v)\<close> on an insertion-ordered dict.\<close>

fun setdefault_append :: "('k \<times> 'v list) list \<Rightarrow> 'k \<Rightarrow> 'v \<Rightarrow> ('k \<times> 'v list) list" where
  "setdefault_append [] k v = [(k, [v])]"
| "setdefault_append ((k', vs) # kvs) k v =
     (if k' = k then (k', vs @ [v]) # kvs else (k', vs) # setdefault_append kvs k v)"

fun group_loop ::
  "string \<Rightarrow> string \<Rightarrow> string list \<Rightarrow> string list \<Rightarrow> (string \<times> string list) list
     \<Rightarrow> (string \<times> string list) list" where
  "group_loop status_online status_offline loaded [] categories = categories"
| "group_loop status_online status_offline loaded (ext # rest) categories =
     group_loop status_online status_offline loaded rest
       (setdefault_append categories (category_of ext)
          (entry_of status_online status_offline loaded ext))"

definition group_extension_statuses ::
  "('h \<Rightarrow> string list) \<Rightarrow> string \<Rightarrow> string \<Rightarrow> string list \<Rightarrow> 'h
     \<Rightarrow> (string \<times> string list) list" where
  "group_extension_statuses keys status_online status_offline EXTENSIONS s =
     group_loop status_online status_offline (keys s) EXTENSIONS []"

text \<open>The bucket of a category in the mapping (empty when the category is no key).\<close>

definition bucket :: "('k \<times> 'v list) list \<Rightarrow> 'k \<Rightarrow> 'v list" where
  "bucket categories k = (case map_of categories k of Some vs \<Rightarrow> vs | None \<Rightarrow> [])"

subsection \<open>The host's contract and a reference host\<close>

text \<open>
  What the framework documents of its three operations and \<open>manage\<close> relies on: loading a
  loaded unit raises \<open>ExtensionAlreadyLoaded\<close>, unloading or reloading a unit that is not
  loaded raises \<open>ExtensionNotLoaded\<close>, and in each case the host's table is left as it was.
\<close>

definition host_contract :: "('h \<Rightarrow> string list) \<Rightarrow> 'h host_op \<Rightarrow> bool" where
  "host_contract keys H \<longleftrightarrow>
     (\<forall>s ext.
        (ext \<in> set (keys s) \<longrightarrow>
           (\<exists>e. H LOAD s ext = (Some e, s) \<and> isa e = ExtensionAlreadyLoaded)) \<and>
        (ext \<notin> set (keys s) \<longrightarrow>
           (\<exists>e. H UNLOAD s ext = (Some e, s) \<and> isa e = ExtensionNotLoaded)) \<and>
        (ext \<notin> set (keys s) \<longrightarrow>
           (\<exists>e. H RELOAD s ext = (Some e, s) \<and> isa e = ExtensionNotLoaded)))"

text \<open>
  A small host that honours the contract, for concrete runs. Its state is the list of the
  loaded names; \<open>setup ext\<close> is the exception that importing and setting up \<open>ext\<close> ends
  in, if any. A reload that fails rolls back, a reload puts the name last in the table.
\<close>

definition already_loaded :: "string \<Rightarrow> exc" where
  "already_loaded ext =
     Exc ExtensionAlreadyLoaded ''ExtensionAlreadyLoaded''
       (''Extension '' @ ext @ '' is already loaded.'') None"

definition not_loaded :: "string \<Rightarrow> exc" where
  "not_loaded ext =
     Exc ExtensionNotLoaded ''ExtensionNotLoaded''
       (''Extension '' @ ext @ '' has not been loaded.'') None"

fun ref_host :: "(string \<Rightarrow> exc option) \<Rightarrow> string list host_op" where
  "ref_host setup LOAD loaded ext =
     (if ext \<in> set loaded then (Some (already_loaded ext), loaded)
      else (case setup ext of
              Some e \<Rightarrow> (Some e, loaded)
            | None \<Rightarrow> (None, loaded @ [ext])))"
| "ref_host setup UNLOAD loaded ext =
     (if ext \<notin> set loaded then (Some (not_loaded ext), loaded)
      else (None, removeAll ext loaded))"
| "ref_host setup RELOAD loaded ext =
     (if ext \<notin> set loaded then (Some (not_loaded ext), loaded)
      else (setup ext, removeAll ext loaded @ [ext]))"

text \<open>
  Set-up behaviours and exceptions for concrete runs: an error that wraps an error that
  wraps another, an exit raised while a unit is set up, and an import that fails.
\<close>

definition raising :: "exc \<Rightarrow> string \<Rightarrow> exc option" where
  "raising e ext = Some e"

definition never_raising :: "string \<Rightarrow> exc option" where
  "never_raising ext = None"

definition wrapped_twice :: exc where
  "wrapped_twice =
     Exc OtherException ''ExtensionFailed'' ''outer''
       (Some (Exc OtherException ''ExtensionFailed'' ''middle''
          (Some (Exc OtherException ''ImportError'' ''inner'' None))))"

text \<open>
  The innermost cause of an error, following \<open>original\<close> as far as it goes. \<open>manage\<close> has
  no such function; it is the reading of "innermost" that \<open>unwrap\<close> is compared with.
\<close>

fun innermost_cause :: "exc \<Rightarrow> exc" where
  "innermost_cause (Exc k c d None) = Exc k c d None"
| "innermost_cause (Exc k c d (Some inner)) = innermost_cause inner"



definition import_error :: exc where
  "import_error = Exc OtherException ''ExtensionFailed'' ''failed'' (Some (Exc OtherException ''ImportError'' ''boom'' None))"

definition broken_setup :: "string \<Rightarrow> exc option" where
  "broken_setup ext = (if ext = ''bad'' then Some import_error else None)"

section \<open>Twemoji code points (bot/exts/twemoji/twemoji.py)\<close>

text \<open>
  Here the characters matter: a Python string is the list of its code points, and a
  literal is written through \<open>ustr\<close>. The table of known emojis behind \<open>is_emoji\<close> and
  Unicode's \<open>str.lower\<close> are parameters.
\<close>

type_synonym ustring = "nat list"

definition ustr :: "string \<Rightarrow> ustring" where
  "ustr s = map of_char s"

datatype py_error = ValueError | IndexError | TypeError

subsection \<open>Built-ins\<close>

definition py_ord :: "ustring \<Rightarrow> py_error + nat" where
  "py_ord s = (case s of [c] \<Rightarrow> Inr c | _ \<Rightarrow> Inl TypeError)"

definition py_chr :: "nat \<Rightarrow> py_error + ustring" where
  "py_chr n = (if n < 0x110000 then Inr [n] else Inl ValueError)"

definition hex_digit :: "nat \<Rightarrow> nat" where
  "hex_digit d = (if d < 10 then 48 + d else 87 + d)"

function hex_digits :: "nat \<Rightarrow> ustring" where
  "hex_digits n =
     (if n < 16 then [hex_digit n] else hex_digits (n div 16) @ [hex_digit (n mod 16)])"
  by pat_completeness auto
termination
  by (relation "measure id") auto

declare hex_digits.simps [simp del]

definition py_hex :: "nat \<Rightarrow> ustring" where
  "py_hex n = ustr ''0x'' @ hex_digits n"

text \<open>
  \<open>int(code, 16)\<close> on strings of the digits \<open>0-9a-f\<close>, the only ones \<open>emoji\<close> passes (they
  are matches of \<open>CODE\<close>); other spellings that Python reads are a \<open>ValueError\<close> here.
\<close>

definition hex_value :: "nat \<Rightarrow> nat option" where
  "hex_value c =
     (if 48 \<le> c \<and> c \<le> 57 then Some (c - 48)
      else if 97 \<le> c \<and> c \<le> 102 then Some (c - 87)
      else None)"

fun int16_loop :: "nat \<Rightarrow> ustring \<Rightarrow> py_error + nat" where
  "int16_loop acc [] = Inr acc"
| "int16_loop acc (c # cs) =
     (case hex_value c of
        None \<Rightarrow> Inl ValueError
      | Some d \<Rightarrow> int16_loop (16 * acc + d) cs)"

definition int16 :: "ustring \<Rightarrow> py_error + nat" where
  "int16 code = (if code = [] then Inl ValueError else int16_loop 0 code)"

text \<open>\<open>str.isspace\<close>, which \<open>str.split()\<close> splits at.\<close>

definition is_space :: "nat \<Rightarrow> bool" where
  "is_space c \<longleftrightarrow>
     (0x09 \<le> c \<and> c \<le> 0x0D) \<or> (0x1C \<le> c \<and> c \<le> 0x20) \<or> c = 0x85 \<or> c = 0xA0
     \<or> c = 0x1680 \<or> (0x2000 \<le> c \<and> c \<le> 0x200A) \<or> c = 0x2028 \<or> c = 0x2029
     \<or> c = 0x202F \<or> c = 0x205F \<or> c = 0x3000"

fun split_loop :: "ustring \<Rightarrow> ustring \<Rightarrow> ustring list" where
  "split_loop cur [] = (if cur = [] then [] else [cur])"
| "split_loop cur (c # cs) =
     (if is_space c then (if cur = [] then split_loop [] cs else cur # split_loop [] cs)
      else split_loop (cur @ [c]) cs)"

definition py_split :: "ustring \<Rightarrow> ustring list" where
  "py_split s = split_loop [] s"

text \<open>The first exception of a sequence of results, or all the values.\<close>

fun collect :: "('e + 'a) list \<Rightarrow> 'e + 'a list" where
  "collect [] = Inr []"
| "collect (Inl e # rs) = Inl e"
| "collect (Inr v # rs) = (case collect rs of Inl e \<Rightarrow> Inl e | Inr vs \<Rightarrow> Inr (v # vs))"

subsection \<open>The pattern CODE\<close>

text \<open>
  \<open>[a-f1-9][a-f0-9]{3,5}$\<close>: a first character, then greedily five, four or three more,
  then the end of the string or the newline that ends it. \<open>search\<close> takes the leftmost
  position where that matches.
\<close>

definition in_af19 :: "nat \<Rightarrow> bool" where
  "in_af19 c \<longleftrightarrow> (97 \<le> c \<and> c \<le> 102) \<or> (49 \<le> c \<and> c \<le> 57)"

definition in_af09 :: "nat \<Rightarrow> bool" where
  "in_af09 c \<longleftrightarrow> (97 \<le> c \<and> c \<le> 102) \<or> (48 \<le> c \<and> c \<le> 57)"

definition at_dollar :: "ustring \<Rightarrow> bool" where
  "at_dollar rest \<longleftrightarrow> rest = [] \<or> rest = [10]"

definition rep_then_end :: "nat \<Rightarrow> ustring \<Rightarrow> bool" where
  "rep_then_end k cs \<longleftrightarrow> k \<le> length cs \<and> list_all in_af09 (take k cs) \<and> at_dollar (drop k cs)"

definition CODE_match :: "ustring \<Rightarrow> ustring option" where
  "CODE_match s =
     (case s of
        [] \<Rightarrow> None
      | c # cs \<Rightarrow>
          if \<not> in_af19 c then None
          else if rep_then_end 5 cs then Some (c # take 5 cs)
          else if rep_then_end 4 cs then Some (c # take 4 cs)
          else if rep_then_end 3 cs then Some (c # take 3 cs)
          else None)"

fun CODE_search :: "ustring \<Rightarrow> ustring option" where
  "CODE_search [] = None"
| "CODE_search (c # cs) =
     (case CODE_match (c # cs) of
        Some m \<Rightarrow> Some m
      | None \<Rightarrow> CODE_search cs)"

subsection \<open>The methods of Twemoji\<close>

definition trim_code :: "ustring option \<Rightarrow> ustring option" where
  "trim_code codepoint =
     (case codepoint of
        None \<Rightarrow> None
      | Some cp \<Rightarrow> if cp = [] then None else CODE_search cp)"

definition emoji :: "ustring option \<Rightarrow> py_error + ustring" where
  "emoji codepoint =
     (case trim_code codepoint of
        None \<Rightarrow> Inr []
      | Some code \<Rightarrow>
          if code = [] then Inr []
          else (case int16 code of
                  Inl e \<Rightarrow> Inl e
                | Inr n \<Rightarrow> py_chr n))"

definition codepoint :: "ustring \<Rightarrow> py_error + ustring" where
  "codepoint e = (case py_ord e of Inl err \<Rightarrow> Inl err | Inr n \<Rightarrow> Inr (drop 2 (py_hex n)))"

definition codepoints_joined :: "ustring \<Rightarrow> py_error + ustring" where
  "codepoints_joined s =
     (case collect (map (\<lambda>c. codepoint [c]) s) of
        Inl e \<Rightarrow> Inl e
      | Inr cps \<Rightarrow> Inr (join (ustr ''-'') cps))"

definition codepoint_from_input ::
  "(ustring \<Rightarrow> bool) \<Rightarrow> (ustring \<Rightarrow> ustring) \<Rightarrow> ustring \<Rightarrow> py_error + ustring" where
  "codepoint_from_input is_emoji lower raw_emoji =
     (let emoji_list = map lower (py_split raw_emoji)
      in case emoji_list of
           [] \<Rightarrow> Inl IndexError
         | first # _ \<Rightarrow>
             if is_emoji first then codepoints_joined first
             else (case collect (map (\<lambda>code. emoji (trim_code (Some code))) emoji_list) of
                     Inl e \<Rightarrow> Inl e
                   | Inr parts \<Rightarrow>
                       (let joined = concat parts
                        in if is_emoji joined then codepoints_joined joined
                           else Inl ValueError)))"

section \<open>Properties of the extension manager\<close>

subsection \<open>The ways out of manage\<close>

lemma manage_returned:
  "H action s ext = (None, s') \<Longrightarrow>
     manage H action s ext =
       (Inr (''Extension successfully '' @ verb action @ ''ed: `'' @ ext @ ''`.'', None), s')"
  by (simp add: manage.simps)

lemma manage_already:
  "H action s ext = (Some e, s') \<Longrightarrow>
   isa e = ExtensionAlreadyLoaded \<or> isa e = ExtensionNotLoaded \<Longrightarrow> action \<noteq> RELOAD \<Longrightarrow>
     manage H action s ext =
       (Inr (''Extension `'' @ ext @ ''` is already '' @ verb action @ ''ed.'', None), s')"
  by (simp add: manage.simps)

lemma manage_fallback:
  "H RELOAD s ext = (Some e, s') \<Longrightarrow>
   isa e = ExtensionAlreadyLoaded \<or> isa e = ExtensionNotLoaded \<Longrightarrow>
     manage H RELOAD s ext = manage H LOAD s' ext"
  by (simp add: manage.simps [of H RELOAD])

lemma manage_failed:
  "H action s ext = (Some e, s') \<Longrightarrow> isa e = OtherException \<Longrightarrow>
     manage H action s ext =
       (Inr (''Failed to '' @ verb action @ '' extension `'' @ ext @ ''`:\<newline>```\<newline>''
               @ format_error (unwrap e) @ ''```'', Some (format_error (unwrap e))), s')"
  by (simp add: manage.simps Let_def)

lemma manage_escapes:
  "H action s ext = (Some e, s') \<Longrightarrow> isa e = NotAnException \<Longrightarrow>
     manage H action s ext = (Inl e, s')"
  by (simp add: manage.simps)

lemma traced_pair:
  "traced H a (s, tr) ext = (fst (H a s ext), (snd (H a s ext), tr @ [(a, ext)]))"
  by (simp add: traced_def split: prod.splits)

lemma manage_traced_direct:
  assumes "action \<noteq> RELOAD"
  shows "manage (traced H) action (s, tr) ext =
           (fst (manage H action s ext), (snd (manage H action s ext), tr @ [(action, ext)]))"
proof (cases "H action s ext")
  case (Pair r s')
  note t = traced_pair [of H action s tr ext]
  show ?thesis
  proof (cases r)
    case None
    with Pair t show ?thesis
      by (simp add: manage_returned [of H action s ext s']
          manage_returned [of "traced H" action "(s, tr)" ext "(s', tr @ [(action, ext)])"])
  next
    case (Some e)
    show ?thesis
    proof (cases "isa e")
      case OtherException
      with Pair Some t show ?thesis
        by (simp add: manage_failed [of H action s ext e s']
            manage_failed [of "traced H" action "(s, tr)" ext e "(s', tr @ [(action, ext)])"])
    next
      case NotAnException
      with Pair Some t show ?thesis
        by (simp add: manage_escapes [of H action s ext e s']
            manage_escapes [of "traced H" action "(s, tr)" ext e "(s', tr @ [(action, ext)])"])
    next
      case ExtensionAlreadyLoaded
      with Pair Some t assms show ?thesis
        by (simp add: manage_already [of H action s ext e s']
            manage_already [of "traced H" action "(s, tr)" ext e "(s', tr @ [(action, ext)])"])
    next
      case ExtensionNotLoaded
      with Pair Some t assms show ?thesis
        by (simp add: manage_already [of H action s ext e s']
            manage_already [of "traced H" action "(s, tr)" ext e "(s', tr @ [(action, ext)])"])
    qed
  qed
qed

lemma manage_traced:
  "manage (traced H) action (s, tr) ext =
     (fst (manage H action s ext), (snd (manage H action s ext), tr @ host_calls H action s ext))"
proof (cases "action = RELOAD")
  case False
  then show ?thesis
    by (simp add: manage_traced_direct host_calls_def falls_back_def)
next
  case True
  show ?thesis
  proof (cases "H RELOAD s ext")
    case (Pair r s')
    note t = traced_pair [of H RELOAD s tr ext]
    show ?thesis
    proof (cases r)
      case None
      with Pair True t show ?thesis
        by (simp add: manage_returned [of H RELOAD s ext s']
            manage_returned [of "traced H" RELOAD "(s, tr)" ext "(s', tr @ [(RELOAD, ext)])"]
            host_calls_def falls_back_def)
    next
      case (Some e)
      show ?thesis
      proof (cases "isa e = ExtensionAlreadyLoaded \<or> isa e = ExtensionNotLoaded")
        case caught: True
        have a: "manage H RELOAD s ext = manage H LOAD s' ext"
          using Pair Some caught by (simp add: manage_fallback)
        have b: "manage (traced H) RELOAD (s, tr) ext =
                   manage (traced H) LOAD (s', tr @ [(RELOAD, ext)]) ext"
          using Pair Some caught t by (simp add: manage_fallback)
        have c: "host_calls H RELOAD s ext = [(RELOAD, ext), (LOAD, ext)]"
          using Pair Some caught by (simp add: host_calls_def falls_back_def)
        show ?thesis
          using True a b c by (simp add: manage_traced_direct)
      next
        case False
        then have k: "isa e = OtherException \<or> isa e = NotAnException"
          by (cases "isa e") simp_all
        have c: "host_calls H RELOAD s ext = [(RELOAD, ext)]"
          using Pair Some False by (simp add: host_calls_def falls_back_def)
        from k show ?thesis
        proof
          assume "isa e = OtherException"
          with Pair Some True t c show ?thesis
            by (simp add: manage_failed [of H RELOAD s ext e s']
                manage_failed [of "traced H" RELOAD "(s, tr)" ext e "(s', tr @ [(RELOAD, ext)])"])
        next
          assume "isa e = NotAnException"
          with Pair Some True t c show ?thesis
            by (simp add: manage_escapes [of H RELOAD s ext e s']
                manage_escapes [of "traced H" RELOAD "(s, tr)" ext e "(s', tr @ [(RELOAD, ext)])"])
        qed
      qed
    qed
  qed
qed

lemma manage_returns_direct:
  assumes "only_exceptions H" and "action \<noteq> RELOAD"
  shows "\<exists>r. fst (manage H action s ext) = Inr r"
proof (cases "H action s ext")
  case (Pair r s')
  show ?thesis
  proof (cases r)
    case None
    with Pair show ?thesis by (simp add: manage_returned)
  next
    case (Some e)
    have "isa e \<noteq> NotAnException"
      using assms(1) Pair Some unfolding only_exceptions_def by blast
    then show ?thesis
      using Pair Some assms(2)
      by (cases "isa e") (simp_all add: manage_already manage_failed)
  qed
qed

lemma manage_returns:
  assumes "only_exceptions H"
  shows "\<exists>r. fst (manage H action s ext) = Inr r"
proof (cases "action = RELOAD")
  case False
  with assms show ?thesis by (rule manage_returns_direct)
next
  case True
  show ?thesis
  proof (cases "H RELOAD s ext")
    case (Pair r s')
    show ?thesis
    proof (cases r)
      case None
      with Pair True show ?thesis by (simp add: manage_returned)
    next
      case (Some e)
      have n: "isa e \<noteq> NotAnException"
        using assms Pair Some unfolding only_exceptions_def by blast
      show ?thesis
      proof (cases "isa e = OtherException")
        case True
        with Pair Some \<open>action = RELOAD\<close> show ?thesis by (simp add: manage_failed)
      next
        case False
        with n have "isa e = ExtensionAlreadyLoaded \<or> isa e = ExtensionNotLoaded"
          by (cases "isa e") simp_all
        then have "manage H RELOAD s ext = manage H LOAD s' ext"
          using Pair Some by (simp add: manage_fallback)
        with True manage_returns_direct [OF assms, of LOAD s' ext] show ?thesis by simp
      qed
    qed
  qed
qed

lemma only_exceptions_traced: "only_exceptions H \<Longrightarrow> only_exceptions (traced H)"
  unfolding only_exceptions_def traced_def by (fastforce split: prod.splits)

subsection \<open>The denylist of the unload command\<close>

lemma blacklisted_nonempty:
  "set UNLOAD_BLACKLIST \<inter> set extensions \<noteq> {} \<Longrightarrow>
     join ''\<newline>'' (filter (\<lambda>b. b \<in> set extensions) UNLOAD_BLACKLIST) \<noteq> []"
  by (auto simp: UNLOAD_BLACKLIST_def exts_name_def)

text \<open>
  Claim C1. When the targets handed to the unload command meet \<open>UNLOAD_BLACKLIST\<close>, the
  command stops before it applies anything: it returns, the host state is the one it
  started from, the list of host calls has not grown (no unload, nor any other operation,
  was invoked), the embed is an error, and its text lists exactly the denylisted targets
  that were asked for. The targets are arbitrary, wildcards included, so the check comes
  before the wildcard is expanded and before \<open>batch_manage\<close> runs.
\<close>

theorem unload_blacklisted_aborts:
  assumes "set UNLOAD_BLACKLIST \<inter> set extensions \<noteq> {}"
  shows "\<exists>blocked. distinct blocked \<and> set blocked = set UNLOAD_BLACKLIST \<inter> set extensions \<and>
           unload_command keys (traced H) (s, calls) extensions =
             (Inr (SendEmbed ''error''
                     (''The following extension(s) may not be unloaded:```\<newline>''
                        @ join ''\<newline>'' blocked @ ''```'')), (s, calls))"
proof -
  let ?blocked = "filter (\<lambda>b. b \<in> set extensions) UNLOAD_BLACKLIST"
  have ne: "extensions \<noteq> []" using assms by auto
  have d: "distinct ?blocked" by (simp add: UNLOAD_BLACKLIST_def)
  have s: "set ?blocked = set UNLOAD_BLACKLIST \<inter> set extensions" by auto
  have "unload_command keys (traced H) (s, calls) extensions =
             (Inr (SendEmbed ''error''
                     (''The following extension(s) may not be unloaded:```\<newline>''
                        @ join ''\<newline>'' ?blocked @ ''```'')), (s, calls))"
    using ne blacklisted_nonempty [OF assms] by (simp add: unload_command_def Let_def)
  with d s show ?thesis by blast
qed

theorem unload_blacklisted_aborts_witness:
  "set UNLOAD_BLACKLIST \<inter> set [''bot.exts.a'', ''bot.exts.utils.extensions'', ''*''] \<noteq> {} \<and>
   unload_command fst (traced (ref_host never_raising))
       ([''bot.exts.a'', ''bot.exts.utils.extensions''], [])
       [''bot.exts.a'', ''bot.exts.utils.extensions'', ''*''] =
     (Inr (SendEmbed ''error''
        ''The following extension(s) may not be unloaded:```\<newline>bot.exts.utils.extensions```''),
      ([''bot.exts.a'', ''bot.exts.utils.extensions''], []))"
  using unload_blacklisted_aborts
    [where extensions = "[''bot.exts.a'', ''bot.exts.utils.extensions'', ''*'']"
       and keys = fst and H = "ref_host never_raising"
       and s = "[''bot.exts.a'', ''bot.exts.utils.extensions'']" and calls = "[]"]
  by (simp add: UNLOAD_BLACKLIST_def exts_name_def unload_command_def)

subsection \<open>Batches: calls, state and report\<close>

lemma batch_loop_step:
  "manage H action s ext = (Inr r, s') \<Longrightarrow>
     batch_loop H action (ext # rest) failures s =
       batch_loop H action rest
         (case snd r of
            Some err \<Rightarrow> if err \<noteq> [] then dict_set failures ext err else failures
          | None \<Rightarrow> failures) s'"
  by (cases r) (simp split: option.splits)






lemma batch_loop_returned:
  "fst (batch_loop H action exts failures s) = Inr result \<Longrightarrow>
     map fst (outcomes H action s exts) = exts \<and>
     result = foldl (\<lambda>d p. dict_set d (fst p) (snd p)) failures
                (failed_of (outcomes H action s exts))"
proof (induction exts arbitrary: failures s)
  case Nil
  then show ?case by simp
next
  case (Cons ext rest)
  obtain r s' where m: "manage H action s ext = (r, s')"
    by (cases "manage H action s ext")
  show ?case
  proof (cases r)
    case (Inl e)
    with m Cons.prems show ?thesis by simp
  next
    case (Inr v)
    obtain msg err where v: "v = (msg, err)" by (cases v)
    let ?f = "case err of Some e \<Rightarrow> if e \<noteq> [] then dict_set failures ext e else failures
              | None \<Rightarrow> failures"
    have step: "batch_loop H action (ext # rest) failures s = batch_loop H action rest ?f s'"
      using batch_loop_step [of H action s ext v s' rest failures] m Inr v by simp
    with Cons.prems have "fst (batch_loop H action rest ?f s') = Inr result" by simp
    from Cons.IH [OF this] m Inr v show ?thesis
      by (cases err) auto
  qed
qed

lemma batch_loop_returns:
  assumes "only_exceptions H"
  shows "\<exists>result. fst (batch_loop H action exts failures s) = Inr result"
proof (induction exts arbitrary: failures s)
  case Nil
  show ?case by simp
next
  case (Cons ext rest)
  obtain r s' where m: "manage H action s ext = (Inr r, s')"
    using manage_returns [OF assms, of action s ext] by (cases "manage H action s ext") auto
  show ?case
    by (simp only: batch_loop_step [OF m] Cons.IH)
qed










subsection \<open>Reload, load and failure of one unit\<close>

lemma ref_host_contract: "host_contract id (ref_host setup)"
  by (simp add: host_contract_def already_loaded_def not_loaded_def)

text \<open>
  Claim C3. On a host that honours its contract, reloading a unit that is not loaded gives
  exactly what loading it gives: the same status message, the same error message and the
  same host state. The fallback is one level deep: the host sees one reload followed by one
  load, and nothing else.
\<close>

theorem reload_of_unloaded_is_load:
  assumes "host_contract keys H" and "ext \<notin> set (keys s)"
  shows "manage H RELOAD s ext = manage H LOAD s ext \<and>
         snd (snd (manage (traced H) RELOAD (s, []) ext)) = [(RELOAD, ext), (LOAD, ext)]"
proof -
  from assms obtain e where e: "H RELOAD s ext = (Some e, s)" "isa e = ExtensionNotLoaded"
    unfolding host_contract_def by blast
  then have "manage H RELOAD s ext = manage H LOAD s ext"
    by (simp add: manage_fallback)
  moreover have "host_calls H RELOAD s ext = [(RELOAD, ext), (LOAD, ext)]"
    using e by (simp add: host_calls_def falls_back_def)
  ultimately show ?thesis
    by (simp add: manage_traced)
qed

theorem reload_of_unloaded_is_load_witness:
  "host_contract id (ref_host never_raising) \<and> ''bot.exts.a'' \<notin> set (id []) \<and>
   manage (ref_host never_raising) RELOAD [] ''bot.exts.a'' =
     (Inr (''Extension successfully loaded: `bot.exts.a`.'', None), [''bot.exts.a'']) \<and>
   snd (snd (manage (traced (ref_host never_raising)) RELOAD ([], []) ''bot.exts.a'')) =
     [(RELOAD, ''bot.exts.a''), (LOAD, ''bot.exts.a'')]"
  using reload_of_unloaded_is_load [of id "ref_host never_raising" "''bot.exts.a''" "[]"]
  by (simp add: ref_host_contract manage_returned [of _ _ _ _ "[''bot.exts.a'']"] never_raising_def)

text \<open>
  Claim C5. On a host that honours its contract, loading a unit that is already loaded
  raises nothing, gives an outcome without error message whose text says that the extension
  is already loaded, and leaves the host as it was; as a batch of that one unit the report
  is \<open>Extension `x` is already loaded.\<close> with the failure flag false.
\<close>

theorem load_of_loaded_is_reported:
  assumes "host_contract keys H" and "ext \<in> set (keys s)"
  shows "manage H LOAD s ext =
           (Inr (''Extension `'' @ ext @ ''` is already loaded.'', None), s) \<and>
         batch_manage H LOAD s [ext] =
           (Inr (''Extension `'' @ ext @ ''` is already loaded.'', False), s)"
proof -
  from assms obtain e where e: "H LOAD s ext = (Some e, s)" "isa e = ExtensionAlreadyLoaded"
    unfolding host_contract_def by blast
  then have "manage H LOAD s ext =
               (Inr (''Extension `'' @ ext @ ''` is already loaded.'', None), s)"
    by (simp add: manage_already)
  then show ?thesis
    by (simp add: batch_manage_def)
qed

theorem load_of_loaded_is_reported_witness:
  "host_contract id (ref_host never_raising) \<and> ''x'' \<in> set (id [''x'']) \<and>
   manage (ref_host never_raising) LOAD [''x''] ''x'' =
     (Inr (''Extension `x` is already loaded.'', None), [''x'']) \<and>
   batch_manage (ref_host never_raising) LOAD [''x''] [''x''] =
     (Inr (''Extension `x` is already loaded.'', False), [''x''])"
  using load_of_loaded_is_reported [of id "ref_host never_raising" "''x''" "[''x'']"]
  by (simp add: ref_host_contract)

text \<open>
  Claim C7, amended. When the host operation fails with an instance of \<open>Exception\<close> that is
  neither \<open>ExtensionAlreadyLoaded\<close> nor \<open>ExtensionNotLoaded\<close>, the outcome is a failure whose
  error message is \<open>{class name}: {text}\<close> of the error that the raised error directly wraps
  (its \<open>original\<close>, one level), or of the raised error itself when it wraps none.
\<close>

theorem failure_reports_wrapped_cause:
  assumes "H action s ext = (Some e, s')" and "isa e = OtherException"
  shows "let cause = (case original e of Some inner \<Rightarrow> inner | None \<Rightarrow> e);
             error_msg = class_name cause @ '': '' @ detail cause
         in manage H action s ext =
              (Inr (''Failed to '' @ verb action @ '' extension `'' @ ext @ ''`:\<newline>```\<newline>''
                      @ error_msg @ ''```'', Some error_msg), s') \<and>
            truthy (Some error_msg)"
  using assms by (simp add: manage_failed format_error_def unwrap_def Let_def)

theorem failure_reports_wrapped_cause_witness:
  "ref_host (raising wrapped_twice) LOAD [] ''x'' = (Some wrapped_twice, []) \<and>
   isa wrapped_twice = OtherException \<and>
   manage (ref_host (raising wrapped_twice)) LOAD [] ''x'' =
     (Inr (''Failed to load extension `x`:\<newline>```\<newline>ExtensionFailed: middle```'',
           Some ''ExtensionFailed: middle''), []) \<and>
   truthy (Some ''ExtensionFailed: middle'')"
  using failure_reports_wrapped_cause
    [of "ref_host (raising wrapped_twice)" LOAD "[]" "''x''" wrapped_twice "[]"]
  by (simp add: raising_def wrapped_twice_def)

text \<open>
  Claim C7 as stated fails for an error that wraps an error that wraps another: \<open>manage\<close>
  reports the middle one, not the innermost cause.
\<close>

theorem innermost_cause_counterexample:
  "ref_host (raising wrapped_twice) LOAD [] ''x'' = (Some wrapped_twice, []) \<and>
   isa wrapped_twice = OtherException \<and>
   manage (ref_host (raising wrapped_twice)) LOAD [] ''x'' =
     (Inr (''Failed to load extension `x`:\<newline>```\<newline>ExtensionFailed: middle```'',
           Some ''ExtensionFailed: middle''), []) \<and>
   format_error (innermost_cause wrapped_twice) = ''ImportError: inner'' \<and>
   Some ''ExtensionFailed: middle'' \<noteq> Some (format_error (innermost_cause wrapped_twice))"
  by (simp add: manage.simps raising_def wrapped_twice_def format_error_def unwrap_def)

subsection \<open>The report of a batch\<close>

lemma dict_set_fresh: "k \<notin> fst ` set d \<Longrightarrow> dict_set d k v = d @ [(k, v)]"
  by (induction d) auto

lemma dict_fold_fresh:
  "distinct (map fst entries) \<Longrightarrow> fst ` set d \<inter> fst ` set entries = {} \<Longrightarrow>
     foldl (\<lambda>d p. dict_set d (fst p) (snd p)) d entries = d @ entries"
proof (induction entries arbitrary: d)
  case Nil
  show ?case by simp
next
  case (Cons p entries)
  have "fst p \<notin> fst ` set d" using Cons.prems by auto
  then have "dict_set d (fst p) (snd p) = d @ [p]"
    by (simp add: dict_set_fresh)
  moreover have "foldl (\<lambda>d p. dict_set d (fst p) (snd p)) (d @ [p]) entries = (d @ [p]) @ entries"
    using Cons.prems by (intro Cons.IH) auto
  ultimately show ?case by simp
qed

lemma failed_of_names: "fst ` set (failed_of outs) \<subseteq> fst ` set outs"
  by (induction outs rule: failed_of.induct) auto

lemma failed_of_distinct: "distinct (map fst outs) \<Longrightarrow> distinct (map fst (failed_of outs))"
proof (induction outs rule: failed_of.induct)
  case (3 ext err rest)
  then show ?case
    using failed_of_names [of rest] by auto
qed simp_all

lemma failed_of_count:
  "length (filter (\<lambda>p. \<not> truthy (snd p)) outs) + length (failed_of outs) = length outs"
  by (induction outs rule: failed_of.induct) auto

lemma dict_of_distinct: "distinct (map fst outs) \<Longrightarrow> dict_of (failed_of outs) = failed_of outs"
  using dict_fold_fresh [of "failed_of outs" "[]"]
  by (simp add: dict_of_def failed_of_distinct)

text \<open>
  Claim C4. For a batch of distinct units that is not a single unit and returns its
  report, the units without error and the failed units add up to the units requested; the
  message is \<open>K / N extensions <verb>ed.\<close> with \<open>N\<close> the number of units and \<open>K\<close> that
  number minus the number of failed units; and when a unit failed, the message goes on with
  a block that lists every failed unit with its error message, and the report is an error.
\<close>

theorem batch_report_counts:
  assumes "distinct extensions" and "length extensions \<noteq> 1"
    and "fst (batch_manage H action s extensions) = Inr report"
  shows "let outs = outcomes H action s extensions;
             failures = failed_of outs;
             successes = filter (\<lambda>p. \<not> truthy (snd p)) outs
         in length successes + length failures = length extensions \<and>
            report =
              (str_int (int (length extensions) - int (length failures)) @ '' / ''
                 @ str_int (int (length extensions)) @ '' extensions '' @ verb action @ ''ed.''
                 @ (if failures = [] then []
                    else ''\<newline>\<newline>**Failures:**```\<newline>''
                           @ join ''\<newline>'' (map (\<lambda>(ext, err). ext @ ''\<newline>    '' @ err) failures)
                           @ ''```''),
               failures \<noteq> [])"
proof -
  let ?outs = "outcomes H action s extensions"
  obtain r s' where bl: "batch_loop H action extensions [] s = (r, s')"
    by (cases "batch_loop H action extensions [] s")
  obtain failures where r: "r = Inr failures"
    using assms(2,3) bl by (cases r) (simp_all add: batch_manage_def)
  have ret: "map fst ?outs = extensions" "failures = dict_of (failed_of ?outs)"
    using batch_loop_returned [of H action extensions "[]" s failures] bl r
    by (simp_all add: dict_of_def)
  have f: "failures = failed_of ?outs"
    using ret assms(1) by (simp add: dict_of_distinct)
  have n: "length ?outs = length extensions"
    using ret(1) by (metis length_map)
  have c: "length (filter (\<lambda>p. \<not> truthy (snd p)) ?outs) + length (failed_of ?outs) =
             length extensions"
    using failed_of_count [of ?outs] n by simp
  have l: "failure_line = (\<lambda>(ext, err). ext @ ''\<newline>    '' @ err)"
    by (auto simp: failure_line_def fun_eq_iff)
  have m: "report =
              (str_int (int (length extensions) - int (length failures)) @ '' / ''
                 @ str_int (int (length extensions)) @ '' extensions '' @ verb action @ ''ed.''
                 @ (if failures = [] then []
                    else ''\<newline>\<newline>**Failures:**```\<newline>''
                           @ join ''\<newline>'' (map (\<lambda>(ext, err). ext @ ''\<newline>    '' @ err) failures)
                           @ ''```''),
               failures \<noteq> [])"
    using assms(2,3) bl r by (auto simp: batch_manage_def Let_def l)
  show ?thesis
    unfolding Let_def using c m f by simp
qed

text \<open>On a host that raises instances of \<open>Exception\<close> only, every batch returns its report.\<close>

lemma batch_manage_returns:
  assumes "only_exceptions H"
  shows "\<exists>report. fst (batch_manage H action s extensions) = Inr report"
proof (cases "length extensions = 1")
  case True
  obtain r s' where "manage H action s (hd extensions) = (Inr r, s')"
    using manage_returns [OF assms, of action s "hd extensions"]
    by (cases "manage H action s (hd extensions)") auto
  with True show ?thesis
    by (cases r) (simp add: batch_manage_def)
next
  case False
  obtain result s' where "batch_loop H action extensions [] s = (Inr result, s')"
    using batch_loop_returns [OF assms, of action extensions "[]" s]
    by (cases "batch_loop H action extensions [] s") auto
  with False show ?thesis
    by (simp add: batch_manage_def Let_def)
qed

theorem batch_report_counts_witness:
  "distinct [''a'', ''bad''] \<and> length [''a'', ''bad''] \<noteq> 1 \<and>
   fst (batch_manage (ref_host broken_setup) LOAD [] [''a'', ''bad'']) =
     Inr (''1 / 2 extensions loaded.\<newline>\<newline>**Failures:**```\<newline>bad\<newline>    ImportError: boom```'', True) \<and>
   length (filter (\<lambda>p. \<not> truthy (snd p)) (outcomes (ref_host broken_setup) LOAD [] [''a'', ''bad''])) = 1 \<and>
   failed_of (outcomes (ref_host broken_setup) LOAD [] [''a'', ''bad'']) = [(''bad'', ''ImportError: boom'')]"
proof -
  have a: "manage (ref_host broken_setup) LOAD [] ''a'' =
             (Inr (''Extension successfully loaded: `a`.'', None), [''a''])"
    by (simp add: manage_returned broken_setup_def)
  have b: "manage (ref_host broken_setup) LOAD [''a''] ''bad'' =
             (Inr (''Failed to load extension `bad`:\<newline>```\<newline>ImportError: boom```'',
                   Some ''ImportError: boom''), [''a''])"
    by (simp add: manage_failed [of _ _ _ _ import_error "[''a'']"] broken_setup_def
        import_error_def format_error_def unwrap_def)
  have r: "fst (batch_manage (ref_host broken_setup) LOAD [] [''a'', ''bad'']) =
     Inr (''1 / 2 extensions loaded.\<newline>\<newline>**Failures:**```\<newline>bad\<newline>    ImportError: boom```'', True)"
    by (simp add: a b batch_manage_def failure_line_def str_int_def digit_char_def)
  show ?thesis
    using batch_report_counts [of "[''a'', ''bad'']" "ref_host broken_setup" LOAD "[]", OF _ _ r]
    by (simp add: a b r Let_def)
qed

subsection \<open>The category listing\<close>

lemma setdefault_append_keys:
  "map fst (setdefault_append cats k v) =
     (if k \<in> set (map fst cats) then map fst cats else map fst cats @ [k])"
  by (induction cats) (auto simp: rev_image_eqI)

lemma bucket_Nil: "bucket [] k = []"
  by (simp add: bucket_def)

lemma setdefault_append_map_of:
  "map_of (setdefault_append cats k v) =
     (map_of cats)(k \<mapsto> (case map_of cats k of Some vs \<Rightarrow> vs @ [v] | None \<Rightarrow> [v]))"
  by (induction cats) (auto simp: fun_eq_iff)

lemma setdefault_append_total:
  "sum_list (map (\<lambda>p. length (snd p)) (setdefault_append cats k v)) =
     Suc (sum_list (map (\<lambda>p. length (snd p)) cats))"
  by (induction cats) auto

lemma setdefault_append_distinct:
  "distinct (map fst cats) \<Longrightarrow> distinct (map fst (setdefault_append cats k v))"
  by (simp add: setdefault_append_keys)

lemma setdefault_append_bucket:
  "bucket (setdefault_append cats k v) k' =
     (if k' = k then bucket cats k @ [v] else bucket cats k')"
  by (simp add: bucket_def setdefault_append_map_of split: option.splits)

lemma setdefault_append_keyset:
  "fst ` set (setdefault_append cats k v) = insert k (fst ` set cats)"
proof -
  have "set (map fst (setdefault_append cats k v)) = insert k (set (map fst cats))"
    unfolding setdefault_append_keys by auto
  then show ?thesis by simp
qed

lemma group_loop_keys:
  "set (map fst (group_loop on off loaded exts cats)) = set (map fst cats) \<union> category_of ` set exts"
  by (induction exts arbitrary: cats) (simp_all add: setdefault_append_keyset)

lemma group_loop_distinct:
  "distinct (map fst cats) \<Longrightarrow> distinct (map fst (group_loop on off loaded exts cats))"
  by (induction exts arbitrary: cats) (simp_all add: setdefault_append_distinct)

lemma group_loop_total:
  "sum_list (map (\<lambda>p. length (snd p)) (group_loop on off loaded exts cats)) =
     sum_list (map (\<lambda>p. length (snd p)) cats) + length exts"
  by (induction exts arbitrary: cats) (simp_all add: setdefault_append_total)

lemma group_loop_bucket:
  "bucket (group_loop on off loaded exts cats) k =
     bucket cats k @ map (entry_of on off loaded) (filter (\<lambda>u. category_of u = k) exts)"
  by (induction exts arbitrary: cats) (simp_all add: setdefault_append_bucket)

lemma base_path_len: "BASE_PATH_LEN = 2"
  by (simp add: BASE_PATH_LEN_def exts_name_def)

text \<open>
  Claim C6. The mapping that \<open>group_extension_statuses\<close> returns has each category once
  as a key, its keys are the categories of the known units, and the bucket of a category
  holds one entry for each known unit of that category, in order, and nothing else; so there
  are as many entries as known units. The category of a unit is made of the segments of its
  path behind the first two (the root \<open>bot.exts\<close>) without the last one, joined by \<open>" - "\<close>,
  when more than one segment is left behind the root, and \<open>uncategorised\<close> otherwise.
\<close>

theorem group_is_partition:
  "distinct (map fst (group_extension_statuses keys on off EXTENSIONS s)) \<and>
   set (map fst (group_extension_statuses keys on off EXTENSIONS s)) = category_of ` set EXTENSIONS \<and>
   (\<forall>k. bucket (group_extension_statuses keys on off EXTENSIONS s) k =
          map (entry_of on off (keys s)) (filter (\<lambda>u. category_of u = k) EXTENSIONS)) \<and>
   sum_list (map (\<lambda>p. length (snd p)) (group_extension_statuses keys on off EXTENSIONS s)) =
     length EXTENSIONS \<and>
   (\<forall>u. category_of u =
          (let remaining = drop 2 (split_on CHR ''.'' u)
           in if length remaining > 1 then join '' - '' (butlast remaining)
              else ''uncategorised''))"
proof -
  have "\<And>u. category_of u =
          (let remaining = drop 2 (split_on CHR ''.'' u)
           in if length remaining > 1 then join '' - '' (butlast remaining)
              else ''uncategorised'')"
    by (auto simp: category_of_def base_path_len Let_def butlast_drop)
  then show ?thesis
    unfolding group_extension_statuses_def
    using group_loop_distinct [of "[]" on off "keys s" EXTENSIONS]
      group_loop_keys [of on off "keys s" EXTENSIONS "[]"]
      group_loop_total [of on off "keys s" EXTENSIONS "[]"]
    by (simp add: group_loop_bucket bucket_Nil)
qed

text \<open>
  Claim C8. Take a known unit, at its place in the bucket of its category. Two host states
  that agree on whether the unit is a key of the loaded table give it the same entry, and
  the marker of that entry is the online marker when the unit is loaded and the offline
  marker when it is not.
\<close>

theorem marker_depends_on_membership:
  assumes "(u \<in> set (keys s1)) = (u \<in> set (keys s2))"
    and "i < length (filter (\<lambda>x. category_of x = k) EXTENSIONS)"
    and "filter (\<lambda>x. category_of x = k) EXTENSIONS ! i = u"
  shows "bucket (group_extension_statuses keys on off EXTENSIONS s1) k ! i =
           bucket (group_extension_statuses keys on off EXTENSIONS s2) k ! i \<and>
         bucket (group_extension_statuses keys on off EXTENSIONS s1) k ! i =
           (if u \<in> set (keys s1) then on else off) @ ''  '' @ last (split_on CHR ''.'' u)"
  using assms
  by (simp add: group_extension_statuses_def group_loop_bucket bucket_Nil entry_of_def status_of_def)

theorem marker_depends_on_membership_witness:
  "((''bot.exts.b.y'' \<in> set (fst ([''bot.exts.b.x''], True))) = (''bot.exts.b.y'' \<in> set (fst ([''bot.exts.c.z'', ''bot.exts.b.x''], False)))) \<and>
   1 < length (filter (\<lambda>x. category_of x = ''b'') [''bot.exts.b.x'', ''bot.exts.b.y'', ''bot.exts.c.z'']) \<and>
   filter (\<lambda>x. category_of x = ''b'') [''bot.exts.b.x'', ''bot.exts.b.y'', ''bot.exts.c.z''] ! 1 = ''bot.exts.b.y'' \<and>
   bucket (group_extension_statuses fst ''ON'' ''OFF'' [''bot.exts.b.x'', ''bot.exts.b.y'', ''bot.exts.c.z''] ([''bot.exts.b.x''], True)) ''b'' ! 1 = ''OFF  y'' \<and>
   bucket (group_extension_statuses fst ''ON'' ''OFF'' [''bot.exts.b.x'', ''bot.exts.b.y'', ''bot.exts.c.z''] ([''bot.exts.c.z'', ''bot.exts.b.x''], False)) ''b'' ! 1 = ''OFF  y''"
proof -
  have c: "category_of ''bot.exts.b.x'' = ''b''" "category_of ''bot.exts.b.y'' = ''b''"
    "category_of ''bot.exts.c.z'' = ''c''"
    by (simp_all add: category_of_def base_path_len)
  have l: "last (split_on CHR ''.'' ''bot.exts.b.y'') = ''y''" by simp
  show ?thesis
    using marker_depends_on_membership [of "''bot.exts.b.y''" fst "([''bot.exts.b.x''], True)"
        "([''bot.exts.c.z'', ''bot.exts.b.x''], False)" 1 "''b''"
        "[''bot.exts.b.x'', ''bot.exts.b.y'', ''bot.exts.c.z'']" "''ON''" "''OFF''"]
    by (auto simp: c l)
qed

lemma group_extension_statuses_example:
  "group_extension_statuses id ''ON'' ''OFF''
     [''bot.exts.b.x'', ''bot.exts.b.y'', ''bot.exts.c.z'', ''bot.exts.q''] [''bot.exts.b.x''] =
   [(''b'', [''ON  x'', ''OFF  y'']), (''c'', [''OFF  z'']), (''uncategorised'', [''OFF  q''])]"
  by (simp add: group_extension_statuses_def category_of_def base_path_len entry_of_def status_of_def)

section \<open>Properties of the code point functions\<close>

lemma hex_digits_length_le:
  "0 < k \<Longrightarrow> n < 16 ^ k \<Longrightarrow> length (hex_digits n) \<le> k"
proof (induction n arbitrary: k rule: hex_digits.induct)
  case (1 n)
  show ?case
  proof (cases "n < 16")
    case True
    with "1.prems" show ?thesis by (simp add: hex_digits.simps [of n])
  next
    case False
    then obtain j where k: "k = Suc j" "0 < j"
      using "1.prems" by (cases k; cases "k - 1") auto
    have "n div 16 < 16 ^ j"
      using "1.prems" k by (simp add: less_mult_imp_div_less mult.commute)
    then have "length (hex_digits (n div 16)) \<le> j"
      using "1.IH" [of j] False k by simp
    with False k show ?thesis by (simp add: hex_digits.simps [of n])
  qed
qed

lemma hex_digits_length_ge:
  "16 ^ k \<le> n \<Longrightarrow> Suc k \<le> length (hex_digits n)"
proof (induction n arbitrary: k rule: hex_digits.induct)
  case (1 n)
  show ?case
  proof (cases "n < 16")
    case True
    have "(16::nat) ^ k < 16 ^ 1" using True "1.prems" by simp
    then have "k < 1" by (rule power_less_imp_less_exp [rotated]) simp
    then have "k = 0" by simp
    with True show ?thesis by (simp add: hex_digits.simps [of n])
  next
    case False
    show ?thesis
    proof (cases k)
      case 0
      with False show ?thesis by (simp add: hex_digits.simps [of n])
    next
      case (Suc j)
      have "16 ^ j \<le> n div 16"
        using "1.prems" Suc by (simp add: less_eq_div_iff_mult_less_eq mult.commute)
      then have "Suc j \<le> length (hex_digits (n div 16))"
        using "1.IH" [of j] False by simp
      with False Suc show ?thesis by (simp add: hex_digits.simps [of n])
    qed
  qed
qed

lemma hex_digit_class: "d < 16 \<Longrightarrow> in_af09 (hex_digit d)"
  by (auto simp: in_af09_def hex_digit_def)

lemma hex_digit_first: "0 < d \<Longrightarrow> d < 16 \<Longrightarrow> in_af19 (hex_digit d)"
  by (auto simp: in_af19_def hex_digit_def)

lemma hex_digits_class: "list_all in_af09 (hex_digits n)"
proof (induction n rule: hex_digits.induct)
  case (1 n)
  then show ?case
    by (cases "n < 16") (simp_all add: hex_digits.simps [of n] hex_digit_class)
qed

lemma hex_digits_nonempty: "hex_digits n \<noteq> []"
  by (simp add: hex_digits.simps [of n])

lemma hex_digits_first: "0 < n \<Longrightarrow> in_af19 (hd (hex_digits n))"
proof (induction n rule: hex_digits.induct)
  case (1 n)
  show ?case
  proof (cases "n < 16")
    case True
    with "1.prems" show ?thesis by (simp add: hex_digits.simps [of n] hex_digit_first)
  next
    case False
    then have "0 < n div 16" by (simp add: div_greater_zero_iff)
    with "1.IH" False have "in_af19 (hd (hex_digits (n div 16)))" by simp
    with False show ?thesis
      by (simp add: hex_digits.simps [of n] hex_digits_nonempty)
  qed
qed

lemma hex_value_digit: "d < 16 \<Longrightarrow> hex_value (hex_digit d) = Some d"
  by (auto simp: hex_value_def hex_digit_def)

lemma int16_loop_append:
  "int16_loop acc (xs @ ys) =
     (case int16_loop acc xs of Inl e \<Rightarrow> Inl e | Inr a \<Rightarrow> int16_loop a ys)"
  by (induction xs arbitrary: acc) (auto split: option.splits)

lemma int16_loop_hex_digits: "int16_loop 0 (hex_digits n) = Inr n"
proof (induction n rule: hex_digits.induct)
  case (1 n)
  show ?case
  proof (cases "n < 16")
    case True
    then show ?thesis by (simp add: hex_digits.simps [of n] hex_value_digit)
  next
    case False
    with "1.IH" have "int16_loop 0 (hex_digits (n div 16)) = Inr (n div 16)" by simp
    with False show ?thesis
      by (simp add: hex_digits.simps [of n] int16_loop_append hex_value_digit)
  qed
qed

lemma int16_hex_digits: "int16 (hex_digits n) = Inr n"
  by (simp add: int16_def hex_digits_nonempty int16_loop_hex_digits)

lemma CODE_match_whole:
  assumes "4 \<le> length s" and "length s \<le> 6" and "in_af19 (hd s)" and "list_all in_af09 (tl s)"
  shows "CODE_match s = Some s"
proof -
  from assms(1) obtain c cs where s: "s = c # cs" by (cases s) auto
  have len: "length cs = 3 \<or> length cs = 4 \<or> length cs = 5"
    using assms(1,2) s by auto
  have cls: "\<And>k. list_all in_af09 (take k cs)"
    using assms(4) s by (simp add: list_all_iff) (meson in_set_takeD)
  from len show ?thesis
    using assms(3) s cls
    by (auto simp: CODE_match_def rep_then_end_def at_dollar_def)
qed

lemma CODE_match_short: "length s < 4 \<Longrightarrow> CODE_match s = None"
  by (cases s) (auto simp: CODE_match_def rep_then_end_def)

lemma CODE_search_short: "length s < 4 \<Longrightarrow> CODE_search s = None"
  by (induction s) (simp_all add: CODE_match_short)

lemma CODE_search_whole:
  assumes "4 \<le> length s" and "length s \<le> 6" and "in_af19 (hd s)" and "list_all in_af09 (tl s)"
  shows "CODE_search s = Some s"
  using CODE_match_whole [OF assms] assms(1) by (cases s) auto

lemma codepoint_single: "codepoint [c] = Inr (hex_digits c)"
  by (simp add: codepoint_def py_ord_def py_hex_def ustr_def)

text \<open>
  Claim C10. For every character \<open>e\<close>, \<open>codepoint\<close> returns its code in hexadecimal, and
  \<open>emoji\<close> of that code returns \<open>e\<close> when \<open>ord(e) \<ge> 0x1000\<close> and the empty string, without
  raising, when \<open>ord(e) < 0x1000\<close>.
\<close>

theorem emoji_codepoint_roundtrip:
  assumes "c < 0x110000"
  shows "\<exists>cp. codepoint [c] = Inr cp \<and>
           emoji (Some cp) = Inr (if 0x1000 \<le> c then [c] else [])"
proof (cases "0x1000 \<le> c")
  case True
  have "16 ^ 3 \<le> c" using True by simp
  then have ge: "4 \<le> length (hex_digits c)"
    using hex_digits_length_ge [of 3 c] by simp
  have "c < 16 ^ 6" using assms by simp
  then have le: "length (hex_digits c) \<le> 6"
    using hex_digits_length_le [of 6 c] by simp
  have first: "in_af19 (hd (hex_digits c))"
    using True by (intro hex_digits_first) simp
  have rest: "list_all in_af09 (tl (hex_digits c))"
    using hex_digits_class [of c] by (cases "hex_digits c") simp_all
  have "trim_code (Some (hex_digits c)) = Some (hex_digits c)"
    using CODE_search_whole [OF ge le first rest] by (simp add: trim_code_def hex_digits_nonempty)
  then have "emoji (Some (hex_digits c)) = Inr [c]"
    using assms by (simp add: emoji_def hex_digits_nonempty int16_hex_digits py_chr_def)
  with True show ?thesis by (simp add: codepoint_single)
next
  case False
  then have "c < 16 ^ 3" by simp
  then have "length (hex_digits c) \<le> 3"
    using hex_digits_length_le [of 3 c] by simp
  then have "trim_code (Some (hex_digits c)) = None"
    by (simp add: trim_code_def CODE_search_short)
  then have "emoji (Some (hex_digits c)) = Inr []"
    by (simp add: emoji_def)
  with False show ?thesis by (simp add: codepoint_single)
qed

theorem emoji_codepoint_roundtrip_witness:
  "(0x1f40d :: nat) < 0x110000 \<and>
   codepoint [0x1f40d] = Inr (ustr ''1f40d'') \<and>
   emoji (Some (ustr ''1f40d'')) = Inr [0x1f40d] \<and>
   (0x61 :: nat) < 0x110000 \<and>
   codepoint [0x61] = Inr (ustr ''61'') \<and>
   emoji (Some (ustr ''61'')) = Inr []"
proof -
  have a: "hex_digits 0x1f40d = ustr ''1f40d''"
    by (simp add: hex_digits.simps hex_digit_def ustr_def)
  have b: "hex_digits 0x61 = ustr ''61''"
    by (simp add: hex_digits.simps hex_digit_def ustr_def)
  show ?thesis
    using emoji_codepoint_roundtrip [of "0x1f40d"] emoji_codepoint_roundtrip [of "0x61"]
    by (simp add: codepoint_single a b)
qed

text \<open>
  What \<open>trim_code\<close> recognises: four to six characters, the first one of \<open>a-f1-9\<close>, the
  others of \<open>a-f0-9\<close>.
\<close>

lemma CODE_match_shape:
  "CODE_match s = Some t \<Longrightarrow>
     4 \<le> length t \<and> length t \<le> 6 \<and> in_af19 (hd t) \<and> list_all in_af09 (tl t)"
  by (cases s) (auto simp: CODE_match_def rep_then_end_def split: if_splits)

lemma CODE_search_shape:
  "CODE_search s = Some t \<Longrightarrow>
     4 \<le> length t \<and> length t \<le> 6 \<and> in_af19 (hd t) \<and> list_all in_af09 (tl t)"
proof (induction s)
  case Nil
  then show ?case by simp
next
  case (Cons c cs)
  then show ?case
    using CODE_match_shape [of "c # cs" t]
    by (cases "CODE_match (c # cs)") simp_all
qed

lemma trim_code_shape:
  "trim_code x = Some t \<Longrightarrow>
     4 \<le> length t \<and> length t \<le> 6 \<and> in_af19 (hd t) \<and> list_all in_af09 (tl t)"
  using CODE_search_shape [of _ t]
  by (auto simp: trim_code_def split: option.splits if_splits)

text \<open>So \<open>int(code, 16)\<close> reads every code that \<open>emoji\<close> passes to it.\<close>

lemma first_is_digit: "in_af19 c \<Longrightarrow> in_af09 c"
  by (auto simp: in_af19_def in_af09_def)

lemma int16_loop_digits:
  "list_all in_af09 s \<Longrightarrow> \<exists>n. int16_loop acc s = Inr n"
  by (induction s arbitrary: acc) (auto simp: in_af09_def hex_value_def)

lemma int16_on_code:
  assumes "trim_code x = Some t"
  shows "\<exists>n. int16 t = Inr n"
proof -
  from trim_code_shape [OF assms] obtain c cs where t: "t = c # cs"
    by (cases t) auto
  with trim_code_shape [OF assms] have "list_all in_af09 t"
    by (simp add: first_is_digit)
  then show ?thesis
    using t int16_loop_digits [of t 0] by (simp add: int16_def)
qed

lemma int16_loop_raises: "int16_loop acc s = Inl e \<Longrightarrow> e = ValueError"
  by (induction s arbitrary: acc) (auto split: option.splits)

lemma emoji_raises: "emoji x = Inl e \<Longrightarrow> e = ValueError"
  by (auto simp: emoji_def int16_def py_chr_def dest: int16_loop_raises
      split: option.splits if_splits sum.splits)

lemma collect_values: "collect (map (\<lambda>x. Inr (f x)) xs) = Inr (map f xs)"
  by (induction xs) simp_all

lemma collect_error: "collect rs = Inl e \<Longrightarrow> Inl e \<in> set rs"
  by (induction rs rule: collect.induct) (auto split: sum.splits)

lemma codepoints_joined_eq:
  "codepoints_joined s = Inr (join (ustr ''-'') (map hex_digits s))"
  by (simp add: codepoints_joined_def codepoint_single collect_values)

lemma split_loop_blank: "list_all is_space s \<Longrightarrow> split_loop [] s = []"
  by (induction s) simp_all

text \<open>
  Claim C9 fails on an input with no token: for a string that is one space,
  \<open>raw_emoji.split()\<close> is empty and \<open>emoji_list[0]\<close> raises \<open>IndexError\<close>, not \<open>ValueError\<close>.
\<close>

theorem codepoint_from_input_blank:
  "codepoint_from_input is_emoji lower (ustr '' '') = Inl IndexError"
  by (simp add: codepoint_from_input_def py_split_def ustr_def is_space_def)

text \<open>
  The same holds for every input made of white space only; on every other input the
  function does return the codes of a known emoji, in hexadecimal and joined by \<open>-\<close>, or
  raise \<open>ValueError\<close>.
\<close>

lemma codepoint_from_input_blank_general:
  "list_all is_space raw \<Longrightarrow> codepoint_from_input is_emoji lower raw = Inl IndexError"
  by (simp add: codepoint_from_input_def py_split_def split_loop_blank)

lemma codepoint_from_input_nonblank:
  assumes "py_split raw \<noteq> []"
  shows "codepoint_from_input is_emoji lower raw = Inl ValueError \<or>
         (\<exists>e. is_emoji e \<and>
              codepoint_from_input is_emoji lower raw =
                Inr (join (ustr ''-'') (map hex_digits e)))"
proof -
  obtain first rest where l: "map lower (py_split raw) = first # rest"
    using assms by (cases "py_split raw") auto
  show ?thesis
  proof (cases "is_emoji first")
    case True
    then show ?thesis
      using l by (auto simp: codepoint_from_input_def codepoints_joined_eq)
  next
    case False
    show ?thesis
    proof (cases "collect (map (\<lambda>code. emoji (trim_code (Some code))) (first # rest))")
      case (Inl e)
      then have "e = ValueError"
        using collect_error [OF Inl] emoji_raises by auto
      with Inl False l show ?thesis
        by (simp add: codepoint_from_input_def)
    next
      case (Inr parts)
      with False l show ?thesis
        by (auto simp: codepoint_from_input_def codepoints_joined_eq Let_def)
    qed
  qed
qed

end
